theory Spec2Isabelle
  imports Main "HOL-Library.AList"
begin

section \<open>Calico: scripted sessions with command-line programs\<close>

text \<open>
  A shallow embedding of \<^verbatim>\<open>src/calico/base.py\<close>: the classes \<^verbatim>\<open>Action\<close>,
  \<^verbatim>\<open>TestCase\<close> and \<^verbatim>\<open>Calico\<close>. Logging and the progress lines printed by
  \<^verbatim>\<open>Calico.run\<close> are left out: they read the state and change none of it. Points are
  integers.
\<close>

subsection \<open>Actions\<close>

datatype ActionType = EXPECT | SEND

text \<open>
  The data of an action is a string or the class \<^verbatim>\<open>pexpect.EOF\<close>, which no string
  is equal to.
\<close>

datatype data = Text string | EOF

text \<open>The attribute \<^verbatim>\<open>type_\<close> is the field \<open>action_type\<close>.\<close>

record Action =
  action_type :: ActionType
  data :: data
  timeout :: "int option"

text \<open>\<^verbatim>\<open>Action.__init__(self, type_, data, *, timeout=None)\<close>\<close>

definition Action_init :: "ActionType \<Rightarrow> string \<Rightarrow> int option \<Rightarrow> Action" where
  "Action_init ty d tm =
     \<lparr>action_type = ty, data = (if d \<noteq> ''_EOF_'' then Text d else EOF), Action.timeout = tm\<rparr>"

text \<open>
  The values that line 188 compares with \<^verbatim>\<open>==\<close>: an instance of \<^verbatim>\<open>Action\<close> and a
  member of \<^verbatim>\<open>ActionType\<close>. Neither class defines \<^verbatim>\<open>__eq__\<close>, so the comparison is
  that of the objects, and an instance of one class is never a member of the other.
\<close>

datatype py_object = Action_object Action | ActionType_member ActionType

subsection \<open>The spawned process\<close>

text \<open>
  The pexpect child is outside the source. It is modelled by the calls the source makes
  on it, in order, and by two oracles: how a call of \<^verbatim>\<open>expect\<close> ends (it returns, or
  raises \<^verbatim>\<open>pexpect.EOF\<close> or \<^verbatim>\<open>pexpect.TIMEOUT\<close>) after the calls made so far, and
  the value of the attribute \<^verbatim>\<open>exitstatus\<close> after them. A call of \<^verbatim>\<open>expect\<close> that
  never returns, and failures of the library other than these two exceptions, are not
  outcomes of the model.
\<close>

datatype call =
  Setecho bool
| Expect data "int option"
| Sendline data
| Close bool

datatype outcome = Matched | EOF_raised | TIMEOUT_raised

record process =
  expect :: "call list \<Rightarrow> data \<Rightarrow> int option \<Rightarrow> outcome"
  exitstatus :: "call list \<Rightarrow> int option"

text \<open>
  The host: whether \<^verbatim>\<open>fakechroot\<close> was found (\<^verbatim>\<open>SUPPORTS_JAIL\<close>), the current
  directory, and the process that \<^verbatim>\<open>pexpect.spawn(command)\<close> yields as the \<open>n\<close>-th
  process spawned.
\<close>

record host =
  SUPPORTS_JAIL :: bool
  getcwd :: string
  spawn :: "nat \<Rightarrow> string \<Rightarrow> process"

type_synonym session = "string \<times> call list"

subsection \<open>Test cases\<close>

record TestCase =
  name :: string
  command :: string
  script :: "Action list"
  timeout :: "int option"
  returns :: "int option"
  points :: "int option"
  blocker :: bool
  visible :: bool

text \<open>\<^verbatim>\<open>TestCase.__init__\<close>: the script starts empty.\<close>

definition TestCase_init ::
  "string \<Rightarrow> string \<Rightarrow> int option \<Rightarrow> int option \<Rightarrow> int option \<Rightarrow> bool \<Rightarrow> bool \<Rightarrow> TestCase" where
  "TestCase_init nm cmd tm rt pt bl vis =
     \<lparr>name = nm, command = cmd, script = [], TestCase.timeout = tm, returns = rt,
      TestCase.points = pt, blocker = bl, visible = vis\<rparr>"

definition add_action :: "Action \<Rightarrow> TestCase \<Rightarrow> TestCase" where
  "add_action action self = self\<lparr>script := script self @ [action]\<rparr>"

text \<open>
  The body of the loop of \<^verbatim>\<open>run_script\<close>, lines 163 to 190. The state is the calls made
  on the process and the error list; the result says first whether the loop is left by
  \<^verbatim>\<open>break\<close>.
\<close>

fun replay :: "process \<Rightarrow> Action list \<Rightarrow> call list \<Rightarrow> string list \<Rightarrow> bool \<times> call list \<times> string list" where
  "replay proc [] calls errs = (False, calls, errs)"
| "replay proc (action # rest) calls errs =
     (if action_type action = EXPECT then
        (case expect proc calls (data action) (Action.timeout action) of
           Matched \<Rightarrow>
             replay proc rest (calls @ [Expect (data action) (Action.timeout action)]) errs
         | EOF_raised \<Rightarrow>
             (True,
              calls @ [Expect (data action) (Action.timeout action), Close True],
              errs @ [''Expected output not received.''])
         | TIMEOUT_raised \<Rightarrow>
             (True,
              calls @ [Expect (data action) (Action.timeout action), Close True],
              errs @ [''Timeout exceeded.'']))
      else if Action_object action = ActionType_member SEND then
        replay proc rest (calls @ [Sendline (data action)]) errs
      else replay proc rest calls errs)"

text \<open>
  \<^verbatim>\<open>TestCase.run_script(self, command)\<close>, as the \<open>n\<close>-th process spawned. The
  \<^verbatim>\<open>else\<close> of the loop closes the process when the loop was not left by \<^verbatim>\<open>break\<close>.
  Returned: the pair of the source, and the session (the command spawned and the calls
  made on its process).
\<close>

definition run_script ::
  "host \<Rightarrow> nat \<Rightarrow> TestCase \<Rightarrow> string \<Rightarrow> (int option \<times> string list) \<times> session" where
  "run_script h n self cmd =
     (let proc = spawn h n cmd;
          (broke, calls, errs) = replay proc (script self) [Setecho False] [];
          calls = (if broke then calls else calls @ [Close True])
      in ((exitstatus proc calls, errs), (cmd, calls)))"

text \<open>The report of one case: the key \<^verbatim>\<open>"errors"\<close> and, once scored, \<^verbatim>\<open>"points"\<close>.\<close>

record case_report =
  errors :: "string list"
  points :: "int option"

text \<open>\<^verbatim>\<open>TestCase.run(self, *, jailed=False)\<close>\<close>

definition TestCase_run :: "host \<Rightarrow> nat \<Rightarrow> TestCase \<Rightarrow> bool \<Rightarrow> case_report \<times> session" where
  "TestCase_run h n self jailed =
     (let jail_prefix = (if jailed then ''fakechroot chroot '' @ getcwd h @ '' '' else '''');
          cmd = jail_prefix @ command self;
          ((exit_status, errs), sess) = run_script h n self cmd;
          errs = [] @ errs;
          errs = (if returns self \<noteq> None \<and> exit_status \<noteq> returns self
                  then errs @ [''Incorrect exit status.''] else errs)
      in (\<lparr>errors = errs, case_report.points = None\<rparr>, sess))"

subsection \<open>The suite\<close>

text \<open>
  \<^verbatim>\<open>Calico\<close> is an \<^verbatim>\<open>OrderedDict\<close> with an attribute \<^verbatim>\<open>points\<close>: its items in
  insertion order, and the total. Storing under a key that is present replaces the value
  in place; a new key goes to the end (\<^const>\<open>AList.update\<close>).
\<close>

record Calico =
  items :: "(string \<times> TestCase) list"
  points :: int

definition Calico_init :: Calico where
  "Calico_init = \<lparr>items = [], Calico.points = 0\<rparr>"

definition add_case :: "TestCase \<Rightarrow> Calico \<Rightarrow> Calico" where
  "add_case c self =
     \<lparr>items = AList.update (name c) c (items self),
      Calico.points = Calico.points self
        + (case TestCase.points c of Some p \<Rightarrow> p | None \<Rightarrow> 0)\<rparr>"

text \<open>
  A value of the report of the suite: the report of a case, or the number stored under
  \<^verbatim>\<open>"points"\<close>.
\<close>

datatype report_value = Case_Report case_report | Earned_Points int

type_synonym report = "(string \<times> report_value) list"

definition startswith :: "string \<Rightarrow> string \<Rightarrow> bool" where
  "startswith s p = (take (length p) s = p)"

text \<open>
  The loop of \<^verbatim>\<open>Calico.run\<close>, lines 230 to 251, over the items of the suite. The state:
  the report, the points earned, and the sessions of the processes spawned so far.
\<close>

fun run_cases ::
  "host \<Rightarrow> (string \<times> TestCase) list \<Rightarrow> report \<Rightarrow> int \<Rightarrow> session list
     \<Rightarrow> report \<times> int \<times> session list" where
  "run_cases h [] rep earned_points sessions = (rep, earned_points, sessions)"
| "run_cases h ((test_name, test) # rest) rep earned_points sessions =
     (let jailed = (SUPPORTS_JAIL h \<and> startswith test_name ''case_'');
          (r, sess) = TestCase_run h (length sessions) test jailed;
          sessions = sessions @ [sess];
          rep = AList.update test_name (Case_Report r) rep;
          passed = (length (errors r) = 0);
          (rep, earned_points) =
            (case TestCase.points test of
               None \<Rightarrow> (rep, earned_points)
             | Some p \<Rightarrow>
                 (let r = r\<lparr>case_report.points := Some (if passed then p else 0)\<rparr>
                  in (AList.update test_name (Case_Report r) rep,
                      earned_points + the (case_report.points r))))
      in if blocker test \<and> \<not> passed then (rep, earned_points, sessions)
         else run_cases h rest rep earned_points sessions)"

text \<open>
  \<^verbatim>\<open>Calico.run(self, *, quiet=False)\<close>. Returned: the report, the sessions of the
  processes spawned, and the suite as the method leaves it (it assigns to no attribute
  and no key of \<^verbatim>\<open>self\<close>).
\<close>

definition Calico_run :: "host \<Rightarrow> Calico \<Rightarrow> report \<times> session list \<times> Calico" where
  "Calico_run h self =
     (let (rep, earned_points, sessions) = run_cases h (items self) [] 0 [];
          rep = AList.update ''points'' (Earned_Points earned_points) rep
      in (rep, sessions, self))"

subsection \<open>Notions used in the statements\<close>

text \<open>
  The run of the item \<open>kc\<close> of the suite as the \<open>n\<close>-th process spawned, with the
  value of \<open>jailed\<close> that \<^verbatim>\<open>Calico.run\<close> computes for it.
\<close>

definition run_as :: "host \<Rightarrow> nat \<Rightarrow> string \<times> TestCase \<Rightarrow> case_report \<times> session" where
  "run_as h n kc =
     TestCase_run h n (snd kc) (SUPPORTS_JAIL h \<and> startswith (fst kc) ''case_'')"

text \<open>A case fails when its error list is not empty.\<close>

definition failed :: "host \<Rightarrow> nat \<Rightarrow> string \<times> TestCase \<Rightarrow> bool" where
  "failed h n kc = (errors (fst (run_as h n kc)) \<noteq> [])"

text \<open>
  The awarded points of a case: its points when it passes, 0 when it fails, and nothing
  to add (0) for a case without points.
\<close>

definition awarded :: "host \<Rightarrow> nat \<Rightarrow> string \<times> TestCase \<Rightarrow> int" where
  "awarded h n kc =
     (case TestCase.points (snd kc) of None \<Rightarrow> 0
      | Some p \<Rightarrow> if failed h n kc then 0 else p)"

text \<open>The report of a case as the loop leaves it under the name of the case.\<close>

definition stored_report :: "host \<Rightarrow> nat \<Rightarrow> string \<times> TestCase \<Rightarrow> case_report" where
  "stored_report h n kc =
     (case TestCase.points (snd kc) of None \<Rightarrow> fst (run_as h n kc)
      | Some p \<Rightarrow> (fst (run_as h n kc))\<lparr>case_report.points := Some (awarded h n kc)\<rparr>)"

definition store :: "host \<Rightarrow> nat \<times> string \<times> TestCase \<Rightarrow> report \<Rightarrow> report" where
  "store h e rep =
     AList.update (fst (snd e)) (Case_Report (stored_report h (fst e) (snd e))) rep"

text \<open>
  The cases actually executed, each with the number of its process: the items in order,
  up to and including the first blocker that fails.
\<close>

fun executed ::
  "host \<Rightarrow> nat \<Rightarrow> (string \<times> TestCase) list \<Rightarrow> (nat \<times> string \<times> TestCase) list" where
  "executed h n [] = []"
| "executed h n (kc # rest) =
     (n, kc) # (if blocker (snd kc) \<and> failed h n kc then [] else executed h (Suc n) rest)"

text \<open>\<^verbatim>\<open>case.points or 0\<close>\<close>

definition score :: "TestCase \<Rightarrow> int" where
  "score c = (case TestCase.points c of Some p \<Rightarrow> p | None \<Rightarrow> 0)"

text \<open>
  The bound of a wait in the words of the specification: the timeout of the action if it
  is set, otherwise the timeout of the case.
\<close>

definition claimed_effective_timeout :: "TestCase \<Rightarrow> Action \<Rightarrow> int option" where
  "claimed_effective_timeout self action =
     (case Action.timeout action of Some t \<Rightarrow> Some t | None \<Rightarrow> TestCase.timeout self)"

subsection \<open>Concrete processes, cases and suites\<close>

text \<open>
  \<^verbatim>\<open>echo hi; exit 3\<close>: prints \<^verbatim>\<open>hi\<close>, then its output ends; the exit status is 3 once
  the process is closed.
\<close>

definition echo_hi :: process where
  "echo_hi =
     \<lparr>expect = (\<lambda>calls d tm.
        if d = EOF then Matched
        else if d = Text ''hi'' \<and> calls = [Setecho False] then Matched
        else EOF_raised),
      exitstatus = (\<lambda>calls. if Close True \<in> set calls then Some 3 else None)\<rparr>"

text \<open>\<^verbatim>\<open>echo hi; sleep 5\<close>: prints \<^verbatim>\<open>hi\<close>, then stays silent until it is killed.\<close>

definition hi_then_sleep :: process where
  "hi_then_sleep =
     \<lparr>expect = (\<lambda>calls d tm.
        if d = Text ''hi'' \<and> calls = [Setecho False] then Matched else TIMEOUT_raised),
      exitstatus = (\<lambda>calls. None)\<rparr>"

definition host0 :: host where
  "host0 =
     \<lparr>SUPPORTS_JAIL = False, getcwd = ''/tmp'',
      spawn = (\<lambda>n cmd. if cmd = ''echo hi; sleep 5'' then hi_then_sleep else echo_hi)\<rparr>"

definition mk_case ::
  "string \<Rightarrow> string \<Rightarrow> Action list \<Rightarrow> int option \<Rightarrow> int option \<Rightarrow> bool \<Rightarrow> TestCase" where
  "mk_case nm cmd acts rt pts bl =
     fold add_action acts (TestCase_init nm cmd None rt pts bl True)"

definition case_send :: TestCase where
  "case_send =
     mk_case ''send'' ''echo hi; exit 3'' [Action_init SEND ''hello'' None] None None False"

definition case_hi :: "int option \<Rightarrow> int option \<Rightarrow> TestCase" where
  "case_hi tm rt =
     (mk_case ''hi'' ''echo hi; exit 3'' [Action_init EXPECT ''hi'' None] rt None False)
       \<lparr>TestCase.timeout := tm\<rparr>"

definition case_eof :: TestCase where
  "case_eof = mk_case ''eof'' ''echo hi; exit 3''
     [Action_init EXPECT ''hi'' None, Action_init EXPECT ''bye'' None,
      Action_init SEND ''later'' None] None None False"

definition case_slow :: TestCase where
  "case_slow = mk_case ''slow'' ''echo hi; sleep 5''
     [Action_init EXPECT ''hi'' None, Action_init EXPECT ''x'' (Some 1),
      Action_init EXPECT ''y'' None] None None False"

definition case_ok :: "string \<Rightarrow> int option \<Rightarrow> TestCase" where
  "case_ok nm pts = mk_case nm ''echo hi; exit 3'' [Action_init EXPECT ''hi'' None]
     (Some 3) pts False"

definition case_bad :: "string \<Rightarrow> int option \<Rightarrow> bool \<Rightarrow> TestCase" where
  "case_bad nm pts bl = mk_case nm ''echo hi; exit 3'' [Action_init EXPECT ''bye'' None]
     None pts bl"

definition case_block :: TestCase where
  "case_block = mk_case ''first'' ''echo hi; exit 3'' [Action_init EXPECT ''bye'' None]
     None (Some 10) True"

definition case_named_points :: TestCase where
  "case_named_points = mk_case ''points'' ''echo hi; exit 3'' [Action_init EXPECT ''hi'' None]
     None (Some 5) False"

definition suite_blocked :: Calico where
  "suite_blocked = fold add_case [case_block, case_named_points] Calico_init"

definition suite3 :: Calico where
  "suite3 = fold add_case
     [case_ok ''c1'' (Some 10), case_bad ''c2'' (Some 20) True, case_ok ''c3'' (Some 30)]
     Calico_init"

definition suite_points :: Calico where
  "suite_points = fold add_case [case_ok ''c1'' (Some 10), case_named_points] Calico_init"

definition suite_twice :: Calico where
  "suite_twice = fold add_case [case_ok ''c1'' (Some 10), case_ok ''c2'' (Some 20)] Calico_init"

section \<open>Replaying a script\<close>

lemmas example_defs =
  mk_case_def TestCase_init_def add_action_def Action_init_def host0_def echo_hi_def
  hi_then_sleep_def

text \<open>
  The loop adds nothing to the error list unless it is left by \<^verbatim>\<open>break\<close>, and then one
  of two messages.
\<close>

lemma replay_errs_prefix:
  "replay p scr calls errs = (b, cs, es) \<Longrightarrow> \<exists>more. es = errs @ more \<and> set more \<subseteq> {''Expected output not received.'', ''Timeout exceeded.''} \<and> (more = [] \<longleftrightarrow> \<not> b)"
  by (induction scr arbitrary: calls errs) (auto split: if_splits outcome.splits)

text \<open>A prefix of the script that the loop runs through leaves the rest to be replayed.\<close>

lemma replay_append:
  "replay p pre calls errs = (False, cs, es) \<Longrightarrow> replay p (pre @ rest) calls errs = replay p rest cs es"
  by (induction pre arbitrary: calls errs) (auto split: if_splits outcome.splits)

text \<open>No call of \<^verbatim>\<open>sendline\<close> is ever made: the test of line 188 is false.\<close>

lemma replay_no_send:
  "Sendline d \<in> set (fst (snd (replay p scr calls errs))) \<Longrightarrow> Sendline d \<in> set calls"
proof (induction scr arbitrary: calls errs)
  case Nil
  then show ?case by simp
next
  case (Cons a scr)
  show ?case
  proof (cases "action_type a = EXPECT")
    case False
    with Cons.prems have "Sendline d \<in> set (fst (snd (replay p scr calls errs)))"
      by simp
    then show ?thesis by (rule Cons.IH)
  next
    case True
    show ?thesis
    proof (cases "expect p calls (data a) (Action.timeout a)")
      case Matched
      with True Cons.prems
      have "Sendline d \<in> set (fst (snd (replay p scr (calls @ [Expect (data a) (Action.timeout a)]) errs)))"
        by simp
      then have "Sendline d \<in> set (calls @ [Expect (data a) (Action.timeout a)])"
        by (rule Cons.IH)
      then show ?thesis by simp
    next
      case EOF_raised
      with True Cons.prems show ?thesis by simp
    next
      case TIMEOUT_raised
      with True Cons.prems show ?thesis by simp
    qed
  qed
qed

lemma run_script_no_sendline:
  "Sendline d \<notin> set (snd (snd (run_script h n self cmd)))"
proof
  assume a: "Sendline d \<in> set (snd (snd (run_script h n self cmd)))"
  obtain b cs es where r: "replay (spawn h n cmd) (script self) [Setecho False] [] = (b, cs, es)"
    by (cases "replay (spawn h n cmd) (script self) [Setecho False] []")
  from a r have "Sendline d \<in> set cs"
    by (simp add: run_script_def Let_def split: if_splits)
  with r have "Sendline d \<in> set (fst (snd (replay (spawn h n cmd) (script self) [Setecho False] [])))"
    by simp
  then have "Sendline d \<in> set [Setecho False]" by (rule replay_no_send)
  then show False by simp
qed

lemma run_script_abort:
  assumes "script self = pre @ action # post"
    and "action_type action = EXPECT"
    and "replay (spawn h n cmd) pre [Setecho False] [] = (False, calls, errs)"
    and "expect (spawn h n cmd) calls (data action) (Action.timeout action) = out"
    and "out \<noteq> Matched"
  shows "run_script h n self cmd =
     ((exitstatus (spawn h n cmd)
         (calls @ [Expect (data action) (Action.timeout action), Close True]),
       [if out = EOF_raised then ''Expected output not received.'' else ''Timeout exceeded.'']),
      (cmd, calls @ [Expect (data action) (Action.timeout action), Close True]))"
proof -
  from replay_errs_prefix [OF assms(3)] have errs: "errs = []" by auto
  have "replay (spawn h n cmd) (script self) [Setecho False] []
      = replay (spawn h n cmd) (action # post) calls errs"
    unfolding assms(1) using assms(3) by (rule replay_append)
  also have "\<dots> = (True, calls @ [Expect (data action) (Action.timeout action), Close True],
      [if out = EOF_raised then ''Expected output not received.'' else ''Timeout exceeded.''])"
    using assms(2,4,5) errs by (cases out) simp_all
  finally show ?thesis by (simp add: run_script_def)
qed

lemma run_script_ignores_case_timeout:
  "run_script h n (self\<lparr>TestCase.timeout := t\<rparr>) cmd = run_script h n self cmd"
  by (simp add: run_script_def)

lemma run_script_errors:
  "set (snd (fst (run_script h n self cmd)))
     \<subseteq> {''Expected output not received.'', ''Timeout exceeded.''}"
proof -
  obtain b cs es where r: "replay (spawn h n cmd) (script self) [Setecho False] [] = (b, cs, es)"
    by (cases "replay (spawn h n cmd) (script self) [Setecho False] []")
  from replay_errs_prefix [OF r] show ?thesis
    by (auto simp: run_script_def r Let_def)
qed

text \<open>
  C1, on the code: a script with the single action SEND \<^verbatim>\<open>hello\<close> is replayed without
  any call of \<^verbatim>\<open>sendline\<close>: the process is only closed. The claim that the data of a
  SEND action is written to the process fails here; no error is recorded.
\<close>

theorem C1_send_is_skipped:
  "run_script host0 0 case_send ''echo hi; exit 3'' =
     ((Some 3, []), (''echo hi; exit 3'', [Setecho False, Close True]))
   \<and> script case_send = [\<lparr>action_type = SEND, data = Text ''hello'', Action.timeout = None\<rparr>]"
  by (simp add: run_script_def case_send_def mk_case_def TestCase_init_def add_action_def
        Action_init_def host0_def echo_hi_def)

text \<open>
  C2, as amended: when the loop reaches an EXPECT action, the wait is called with the
  timeout of the action itself (none when it is unset); if it ends in a timeout, the error
  list is exactly \<^verbatim>\<open>Timeout exceeded.\<close>, the process is closed by force right after the
  wait and no later action is replayed. The timeout of the case has no effect on
  \<^verbatim>\<open>run_script\<close>.
\<close>

theorem C2_timeout_aborts:
  assumes "script self = pre @ action # post"
    and "action_type action = EXPECT"
    and "replay (spawn h n cmd) pre [Setecho False] [] = (False, calls, errs)"
    and "expect (spawn h n cmd) calls (data action) (Action.timeout action) = TIMEOUT_raised"
  shows "run_script h n self cmd =
     ((exitstatus (spawn h n cmd)
         (calls @ [Expect (data action) (Action.timeout action), Close True]),
       [''Timeout exceeded.'']),
      (cmd, calls @ [Expect (data action) (Action.timeout action), Close True]))
    \<and> run_script h n (self\<lparr>TestCase.timeout := t\<rparr>) cmd = run_script h n self cmd"
  using run_script_abort [OF assms(1-4)] by (simp add: run_script_ignores_case_timeout)

theorem C2_timeout_aborts_witness:
  "script case_slow = [Action_init EXPECT ''hi'' None] @ Action_init EXPECT ''x'' (Some 1)
      # [Action_init EXPECT ''y'' None]
   \<and> action_type (Action_init EXPECT ''x'' (Some 1)) = EXPECT
   \<and> replay (spawn host0 0 ''echo hi; sleep 5'') [Action_init EXPECT ''hi'' None] [Setecho False] []
       = (False, [Setecho False, Expect (Text ''hi'') None], [])
   \<and> expect (spawn host0 0 ''echo hi; sleep 5'') [Setecho False, Expect (Text ''hi'') None]
        (data (Action_init EXPECT ''x'' (Some 1))) (Action.timeout (Action_init EXPECT ''x'' (Some 1)))
       = TIMEOUT_raised
   \<and> run_script host0 0 case_slow ''echo hi; sleep 5'' =
       ((None, [''Timeout exceeded.'']),
        (''echo hi; sleep 5'',
         [Setecho False, Expect (Text ''hi'') None, Expect (Text ''x'') (Some 1), Close True]))
   \<and> run_script host0 0 (case_slow\<lparr>TestCase.timeout := Some 9\<rparr>) ''echo hi; sleep 5''
       = run_script host0 0 case_slow ''echo hi; sleep 5''"
proof -
  have 1: "script case_slow = [Action_init EXPECT ''hi'' None] @ Action_init EXPECT ''x'' (Some 1)
      # [Action_init EXPECT ''y'' None]"
    by (simp add: case_slow_def example_defs)
  have 2: "action_type (Action_init EXPECT ''x'' (Some 1)) = EXPECT"
    by (simp add: Action_init_def)
  have 3: "replay (spawn host0 0 ''echo hi; sleep 5'') [Action_init EXPECT ''hi'' None] [Setecho False] []
       = (False, [Setecho False, Expect (Text ''hi'') None], [])"
    by (simp add: example_defs)
  have 4: "expect (spawn host0 0 ''echo hi; sleep 5'') [Setecho False, Expect (Text ''hi'') None]
        (data (Action_init EXPECT ''x'' (Some 1))) (Action.timeout (Action_init EXPECT ''x'' (Some 1)))
       = TIMEOUT_raised"
    by (simp add: example_defs)
  have 5: "exitstatus (spawn host0 0 ''echo hi; sleep 5'')
      [Setecho False, Expect (Text ''hi'') None, Expect (Text ''x'') (Some 1), Close True] = None"
    by (simp add: example_defs)
  from C2_timeout_aborts [OF 1 2 3 4, of "Some 9"] 5
  have "run_script host0 0 case_slow ''echo hi; sleep 5'' =
       ((None, [''Timeout exceeded.'']),
        (''echo hi; sleep 5'',
         [Setecho False, Expect (Text ''hi'') None, Expect (Text ''x'') (Some 1), Close True]))
   \<and> run_script host0 0 (case_slow\<lparr>TestCase.timeout := Some 9\<rparr>) ''echo hi; sleep 5''
       = run_script host0 0 case_slow ''echo hi; sleep 5''"
    by (simp add: Action_init_def)
  with 1 2 3 4 show ?thesis by blast
qed

text \<open>
  C2 as stated fails: with the timeout of the case set to 5 and none on the action, the
  wait is called with no timeout, not with 5.
\<close>

theorem C2_case_timeout_not_used:
  "snd (run_script host0 0 (case_hi (Some 5) None) ''echo hi; exit 3'')
     = (''echo hi; exit 3'', [Setecho False, Expect (Text ''hi'') None, Close True])
   \<and> script (case_hi (Some 5) None) = [Action_init EXPECT ''hi'' None]
   \<and> claimed_effective_timeout (case_hi (Some 5) None) (Action_init EXPECT ''hi'' None) = Some 5"
  by (simp add: run_script_def case_hi_def claimed_effective_timeout_def example_defs)

text \<open>
  C3: when the loop reaches an EXPECT action and the wait ends at the end of the output,
  the error list is exactly \<^verbatim>\<open>Expected output not received.\<close>, the process is closed by
  force right after the wait, and no action after it is attempted.
\<close>

theorem C3_eof_aborts:
  assumes "script self = pre @ action # post"
    and "action_type action = EXPECT"
    and "replay (spawn h n cmd) pre [Setecho False] [] = (False, calls, errs)"
    and "expect (spawn h n cmd) calls (data action) (Action.timeout action) = EOF_raised"
  shows "run_script h n self cmd =
     ((exitstatus (spawn h n cmd)
         (calls @ [Expect (data action) (Action.timeout action), Close True]),
       [''Expected output not received.'']),
      (cmd, calls @ [Expect (data action) (Action.timeout action), Close True]))"
  using run_script_abort [OF assms(1-4)] by simp

theorem C3_eof_aborts_witness:
  "script case_eof = [Action_init EXPECT ''hi'' None] @ Action_init EXPECT ''bye'' None
      # [Action_init SEND ''later'' None]
   \<and> action_type (Action_init EXPECT ''bye'' None) = EXPECT
   \<and> replay (spawn host0 0 ''echo hi; exit 3'') [Action_init EXPECT ''hi'' None] [Setecho False] []
       = (False, [Setecho False, Expect (Text ''hi'') None], [])
   \<and> expect (spawn host0 0 ''echo hi; exit 3'') [Setecho False, Expect (Text ''hi'') None]
        (data (Action_init EXPECT ''bye'' None)) (Action.timeout (Action_init EXPECT ''bye'' None))
       = EOF_raised
   \<and> run_script host0 0 case_eof ''echo hi; exit 3'' =
       ((Some 3, [''Expected output not received.'']),
        (''echo hi; exit 3'',
         [Setecho False, Expect (Text ''hi'') None, Expect (Text ''bye'') None, Close True]))"
proof -
  have 1: "script case_eof = [Action_init EXPECT ''hi'' None] @ Action_init EXPECT ''bye'' None
      # [Action_init SEND ''later'' None]"
    by (simp add: case_eof_def example_defs)
  have 2: "action_type (Action_init EXPECT ''bye'' None) = EXPECT"
    by (simp add: Action_init_def)
  have 3: "replay (spawn host0 0 ''echo hi; exit 3'') [Action_init EXPECT ''hi'' None] [Setecho False] []
       = (False, [Setecho False, Expect (Text ''hi'') None], [])"
    by (simp add: example_defs)
  have 4: "expect (spawn host0 0 ''echo hi; exit 3'') [Setecho False, Expect (Text ''hi'') None]
        (data (Action_init EXPECT ''bye'' None)) (Action.timeout (Action_init EXPECT ''bye'' None))
       = EOF_raised"
    by (simp add: example_defs)
  have 5: "exitstatus (spawn host0 0 ''echo hi; exit 3'')
      [Setecho False, Expect (Text ''hi'') None, Expect (Text ''bye'') None, Close True] = Some 3"
    by (simp add: example_defs)
  from C3_eof_aborts [OF 1 2 3 4] 5
  have "run_script host0 0 case_eof ''echo hi; exit 3'' =
       ((Some 3, [''Expected output not received.'']),
        (''echo hi; exit 3'',
         [Setecho False, Expect (Text ''hi'') None, Expect (Text ''bye'') None, Close True]))"
    by (simp add: Action_init_def)
  with 1 2 3 4 show ?thesis by blast
qed

section \<open>Running a case\<close>

text \<open>
  C4: the errors of the report are those of the replay, followed by
  \<^verbatim>\<open>Incorrect exit status.\<close> exactly when \<^verbatim>\<open>returns\<close> is set and differs from the exit
  status of the replay; the replay itself never records that message.
\<close>

theorem C4_incorrect_exit_status:
  "errors (fst (TestCase_run h n self jailed)) =
     snd (fst (run_script h n self
        ((if jailed then ''fakechroot chroot '' @ getcwd h @ '' '' else '''') @ command self)))
     @ (if returns self \<noteq> None
           \<and> fst (fst (run_script h n self
                ((if jailed then ''fakechroot chroot '' @ getcwd h @ '' '' else '''')
                  @ command self))) \<noteq> returns self
        then [''Incorrect exit status.''] else [])
   \<and> (''Incorrect exit status.'' \<in> set (errors (fst (TestCase_run h n self jailed)))) =
       (returns self \<noteq> None
        \<and> fst (fst (run_script h n self
             ((if jailed then ''fakechroot chroot '' @ getcwd h @ '' '' else '''')
               @ command self))) \<noteq> returns self)"
proof -
  let ?cmd = "(if jailed then ''fakechroot chroot '' @ getcwd h @ '' '' else '''') @ command self"
  have 1: "errors (fst (TestCase_run h n self jailed)) =
     snd (fst (run_script h n self ?cmd))
     @ (if returns self \<noteq> None \<and> fst (fst (run_script h n self ?cmd)) \<noteq> returns self
        then [''Incorrect exit status.''] else [])"
    by (simp add: TestCase_run_def Let_def split: prod.splits)
  have "''Incorrect exit status.'' \<notin> set (snd (fst (run_script h n self ?cmd)))"
    using run_script_errors [of h n self ?cmd] by auto
  with 1 show ?thesis by simp
qed

theorem C4_incorrect_exit_status_witness:
  "errors (fst (TestCase_run host0 0 (case_hi None (Some 0)) False)) = [''Incorrect exit status.'']
   \<and> errors (fst (TestCase_run host0 0 (case_hi None (Some 3)) False)) = []
   \<and> errors (fst (TestCase_run host0 0 (case_hi None None) False)) = []"
proof -
  have r: "run_script host0 0 (case_hi None rt) ''echo hi; exit 3''
      = ((Some 3, []), (''echo hi; exit 3'', [Setecho False, Expect (Text ''hi'') None, Close True]))"
    for rt
    by (simp add: run_script_def case_hi_def example_defs)
  have c: "command (case_hi None rt) = ''echo hi; exit 3''" "returns (case_hi None rt) = rt" for rt
    by (simp_all add: case_hi_def example_defs)
  show ?thesis
    using C4_incorrect_exit_status [of host0 0 "case_hi None (Some 0)" False]
      C4_incorrect_exit_status [of host0 0 "case_hi None (Some 3)" False]
      C4_incorrect_exit_status [of host0 0 "case_hi None None" False]
    by (simp add: r c)
qed

section \<open>Actions and the end-of-stream sentinel\<close>

text \<open>
  C8, as amended: the data of a constructed action is the sentinel exactly when the string
  supplied is \<^verbatim>\<open>_EOF_\<close>; every other string is kept as it is.
\<close>

theorem C8_sentinel_iff:
  "(data (Action_init ty d tm) = EOF) = (d = ''_EOF_'')
   \<and> (d \<noteq> ''_EOF_'' \<longrightarrow> data (Action_init ty d tm) = Text d)"
  by (simp add: Action_init_def)

theorem C8_sentinel_iff_witness:
  "(data (Action_init EXPECT ''hi'' None) = EOF) = (''hi'' = ''_EOF_'')
   \<and> (''hi'' \<noteq> ''_EOF_'' \<and> data (Action_init EXPECT ''hi'' None) = Text ''hi'')"
  using C8_sentinel_iff [of EXPECT "''hi''" None] by simp

text \<open>C8 as stated fails: the literal \<^verbatim>\<open>_EOF_\<close> is turned into the sentinel.\<close>

theorem C8_literal_becomes_sentinel:
  "data (Action_init EXPECT ''_EOF_'' None) = EOF"
  by (simp add: Action_init_def)

section \<open>Building a suite\<close>

lemma points_fold_add_case:
  "Calico.points (fold add_case cs s) = Calico.points s + sum_list (map score cs)"
  by (induction cs arbitrary: s) (simp_all add: add_case_def score_def)

lemma distinct_items_fold_add_case:
  "distinct (map fst (items s)) \<Longrightarrow> distinct (map fst (items (fold add_case cs s)))"
  by (induction cs arbitrary: s) (simp_all add: add_case_def distinct_update)

lemma filter_key_distinct:
  "distinct (map fst al) \<Longrightarrow> map_of al k = Some v \<Longrightarrow> filter (\<lambda>kv. fst kv = k) al = [(k, v)]"
proof (induction al)
  case Nil
  then show ?case by simp
next
  case (Cons a al)
  show ?case
  proof (cases "fst a = k")
    case True
    with Cons.prems have "a = (k, v)" by (cases a) simp
    moreover from True Cons.prems(1) have "k \<notin> fst ` set al" by auto
    then have "filter (\<lambda>kv. fst kv = k) al = []"
      by (force simp: filter_empty_conv)
    ultimately show ?thesis by simp
  next
    case False
    with Cons show ?thesis by (cases a) auto
  qed
qed

section \<open>Running a suite\<close>

text \<open>One round of the loop, in these notions.\<close>

lemma run_cases_Cons:
  "run_cases h (kc # rest) rep e ss =
     (let rep' = AList.update (fst kc) (Case_Report (stored_report h (length ss) kc)) rep;
          e' = e + awarded h (length ss) kc;
          ss' = ss @ [snd (run_as h (length ss) kc)]
      in if blocker (snd kc) \<and> failed h (length ss) kc then (rep', e', ss')
         else run_cases h rest rep' e' ss')"
proof -
  obtain k c where kc: "kc = (k, c)" by (cases kc)
  obtain r s where rs: "TestCase_run h (length ss) c (SUPPORTS_JAIL h \<and> startswith k ''case_'') = (r, s)"
    by (cases "TestCase_run h (length ss) c (SUPPORTS_JAIL h \<and> startswith k ''case_'')")
  show ?thesis
  proof (cases "TestCase.points c")
    case None
    then show ?thesis
      unfolding kc by (simp add: rs Let_def run_as_def failed_def awarded_def stored_report_def)
  next
    case (Some p)
    then show ?thesis
      unfolding kc by (simp add: rs Let_def run_as_def failed_def awarded_def stored_report_def)
  qed
qed

declare run_cases.simps(2) [simp del]

text \<open>
  The loop stores the report of each executed case under its name, adds its awarded
  points, and spawns one process for it.
\<close>

lemma run_cases_executed:
  "run_cases h cs rep e ss =
     (fold (store h) (executed h (length ss) cs) rep,
      e + sum_list (map (\<lambda>x. awarded h (fst x) (snd x)) (executed h (length ss) cs)),
      ss @ map (\<lambda>x. snd (run_as h (fst x) (snd x))) (executed h (length ss) cs))"
proof (induction cs arbitrary: rep e ss)
  case Nil
  show ?case by simp
next
  case (Cons kc cs)
  show ?case
    by (simp add: run_cases_Cons Cons.IH Let_def store_def)
qed

lemma keys_fold_store:
  "fst ` set (fold (store h) ex rep) = fst ` set rep \<union> (\<lambda>x. fst (snd x)) ` set ex"
  by (induction ex arbitrary: rep) (auto simp: store_def dom_update)

lemma distinct_fold_store:
  "distinct (map fst rep) \<Longrightarrow> distinct (map fst (fold (store h) ex rep))"
  by (induction ex arbitrary: rep) (simp_all add: store_def distinct_update)

lemma map_of_fold_store_other:
  "k \<notin> (\<lambda>x. fst (snd x)) ` set ex \<Longrightarrow> map_of (fold (store h) ex rep) k = map_of rep k"
  by (induction ex arbitrary: rep) (simp_all add: store_def update_conv')

lemma map_of_fold_store:
  "distinct (map (\<lambda>x. fst (snd x)) ex) \<Longrightarrow> x \<in> set ex \<Longrightarrow>
   map_of (fold (store h) ex rep) (fst (snd x)) = Some (Case_Report (stored_report h (fst x) (snd x)))"
proof (induction ex arbitrary: rep)
  case Nil
  then show ?case by simp
next
  case (Cons y ex)
  show ?case
  proof (cases "x \<in> set ex")
    case True
    with Cons show ?thesis by simp
  next
    case False
    with Cons.prems have xy: "x = y" and notin: "fst (snd y) \<notin> (\<lambda>x. fst (snd x)) ` set ex"
      by auto
    show ?thesis
      by (simp add: xy map_of_fold_store_other [OF notin]) (simp add: store_def update_conv')
  qed
qed

lemma executed_prefix:
  "map snd (executed h n cs) = take (length (executed h n cs)) cs"
  by (induction cs arbitrary: n) simp_all

lemma executed_index:
  "map fst (executed h n cs) = [n ..< n + length (executed h n cs)]"
  by (induction cs arbitrary: n) (simp_all add: upt_rec)

lemma executed_distinct:
  assumes "distinct (map fst cs)"
  shows "distinct (map (\<lambda>x. fst (snd x)) (executed h n cs))"
proof -
  have "map (\<lambda>x. fst (snd x)) (executed h n cs) = map fst (map snd (executed h n cs))"
    by simp
  also have "\<dots> = take (length (executed h n cs)) (map fst cs)"
    by (simp only: executed_prefix take_map)
  finally show ?thesis using assms by (simp add: distinct_take)
qed

lemma executed_through:
  "\<forall>j<length pre. \<not> (blocker (snd (pre ! j)) \<and> failed h (n + j) (pre ! j)) \<Longrightarrow>
   executed h n (pre @ rest) = executed h n pre @ executed h (n + length pre) rest
   \<and> map snd (executed h n pre) = pre"
proof (induction pre arbitrary: n)
  case Nil
  show ?case by simp
next
  case (Cons x pre)
  from Cons.prems have x: "\<not> (blocker (snd x) \<and> failed h n x)" by fastforce
  have "\<forall>j<length pre. \<not> (blocker (snd (pre ! j)) \<and> failed h (Suc n + j) (pre ! j))"
  proof (intro allI impI)
    fix j assume "j < length pre"
    then have "Suc j < length (x # pre)" by simp
    with Cons.prems have "\<not> (blocker (snd ((x # pre) ! Suc j)) \<and> failed h (n + Suc j) ((x # pre) ! Suc j))"
      by blast
    then show "\<not> (blocker (snd (pre ! j)) \<and> failed h (Suc n + j) (pre ! j))" by simp
  qed
  then have "executed h (Suc n) (pre @ rest) =
      executed h (Suc n) pre @ executed h (Suc n + length pre) rest
      \<and> map snd (executed h (Suc n) pre) = pre"
    by (rule Cons.IH)
  with x show ?case by auto
qed

lemma Calico_run_executed:
  "Calico_run h self =
     (AList.update ''points''
        (Earned_Points (sum_list (map (\<lambda>x. awarded h (fst x) (snd x)) (executed h 0 (items self)))))
        (fold (store h) (executed h 0 (items self)) []),
      map (\<lambda>x. snd (run_as h (fst x) (snd x))) (executed h 0 (items self)),
      self)"
  by (simp add: Calico_run_def run_cases_executed)

lemma executed_nth:
  assumes "(n, kc) \<in> set (executed h 0 cs)"
  shows "n < length (executed h 0 cs) \<and> executed h 0 cs ! n = (n, kc)"
proof -
  from assms obtain i where i: "i < length (executed h 0 cs)" "executed h 0 cs ! i = (n, kc)"
    by (auto simp: in_set_conv_nth)
  have "map fst (executed h 0 cs) ! i = [0 ..< 0 + length (executed h 0 cs)] ! i"
    by (simp only: executed_index [symmetric])
  with i have "n = i" by simp
  with i show ?thesis by simp
qed

text \<open>The concrete cases and suites, evaluated.\<close>

lemma case_ok_fields:
  "name (case_ok nm pts) = nm" "TestCase.points (case_ok nm pts) = pts"
  "blocker (case_ok nm pts) = False"
  "name (case_bad nm pts bl) = nm" "TestCase.points (case_bad nm pts bl) = pts"
  "blocker (case_bad nm pts bl) = bl"
  "name case_named_points = ''points''" "TestCase.points case_named_points = Some 5"
  "blocker case_named_points = False"
  "name case_block = ''first''" "TestCase.points case_block = Some 10" "blocker case_block = True"
  by (simp_all add: case_ok_def case_bad_def case_named_points_def case_block_def
        mk_case_def TestCase_init_def add_action_def)

lemma run_as_examples:
  "run_as host0 n (k, case_ok nm pts) =
     (\<lparr>errors = [], case_report.points = None\<rparr>,
      (''echo hi; exit 3'', [Setecho False, Expect (Text ''hi'') None, Close True]))"
  "run_as host0 n (k, case_bad nm pts bl) =
     (\<lparr>errors = [''Expected output not received.''], case_report.points = None\<rparr>,
      (''echo hi; exit 3'', [Setecho False, Expect (Text ''bye'') None, Close True]))"
  "run_as host0 n (k, case_named_points) =
     (\<lparr>errors = [], case_report.points = None\<rparr>,
      (''echo hi; exit 3'', [Setecho False, Expect (Text ''hi'') None, Close True]))"
  "run_as host0 n (k, case_block) =
     (\<lparr>errors = [''Expected output not received.''], case_report.points = None\<rparr>,
      (''echo hi; exit 3'', [Setecho False, Expect (Text ''bye'') None, Close True]))"
  by (simp_all add: run_as_def TestCase_run_def run_script_def case_ok_def case_bad_def
        case_named_points_def case_block_def example_defs)

lemma suite_items:
  "items suite3 = [(''c1'', case_ok ''c1'' (Some 10)), (''c2'', case_bad ''c2'' (Some 20) True),
     (''c3'', case_ok ''c3'' (Some 30))]"
  "items suite_points = [(''c1'', case_ok ''c1'' (Some 10)), (''points'', case_named_points)]"
  "items suite_blocked = [(''first'', case_block), (''points'', case_named_points)]"
  by (simp_all add: suite3_def suite_points_def suite_blocked_def add_case_def Calico_init_def
        case_ok_fields)

lemma executed_examples:
  "executed host0 0 (items suite3) =
     [(0, ''c1'', case_ok ''c1'' (Some 10)), (1, ''c2'', case_bad ''c2'' (Some 20) True)]"
  "executed host0 0 (items suite_points) =
     [(0, ''c1'', case_ok ''c1'' (Some 10)), (1, ''points'', case_named_points)]"
  "executed host0 0 (items suite_blocked) = [(0, ''first'', case_block)]"
  by (simp_all add: suite_items failed_def run_as_examples case_ok_fields)

lemma Calico_run_examples:
  "fst (Calico_run host0 suite3) =
     [(''c1'', Case_Report \<lparr>errors = [], case_report.points = Some 10\<rparr>),
      (''c2'', Case_Report \<lparr>errors = [''Expected output not received.''],
          case_report.points = Some 0\<rparr>),
      (''points'', Earned_Points 10)]"
  "fst (Calico_run host0 suite_points) =
     [(''c1'', Case_Report \<lparr>errors = [], case_report.points = Some 10\<rparr>),
      (''points'', Earned_Points 15)]"
  "fst (Calico_run host0 suite_blocked) =
     [(''first'', Case_Report \<lparr>errors = [''Expected output not received.''],
          case_report.points = Some 0\<rparr>),
      (''points'', Earned_Points 0)]"
  by (simp_all add: Calico_run_executed executed_examples store_def stored_report_def
        awarded_def failed_def run_as_examples case_ok_fields)

text \<open>
  C5, as amended: when the loop reaches a blocker that fails, the report and the processes
  spawned are those of the suite cut after that case: as many processes as cases up to and
  including it, and the keys of the report are the names of those cases and \<^verbatim>\<open>points\<close>.
  No later case is a key of the report, unless its name is \<^verbatim>\<open>points\<close>, the key of the
  total.
\<close>

theorem C5_blocker_stops_suite:
  assumes "items self = pre @ (k, c) # post"
    and "distinct (map fst (items self))"
    and "\<forall>j<length pre. \<not> (blocker (snd (pre ! j)) \<and> failed h j (pre ! j))"
    and "blocker c"
    and "failed h (length pre) (k, c)"
  shows "fst (Calico_run h self) = fst (Calico_run h (self\<lparr>items := pre @ [(k, c)]\<rparr>))
    \<and> fst (snd (Calico_run h self)) = fst (snd (Calico_run h (self\<lparr>items := pre @ [(k, c)]\<rparr>)))
    \<and> length (fst (snd (Calico_run h self))) = Suc (length pre)
    \<and> fst ` set (fst (Calico_run h self)) = fst ` set pre \<union> {k, ''points''}
    \<and> (\<forall>kc \<in> set post. fst kc \<noteq> ''points'' \<longrightarrow> fst kc \<notin> fst ` set (fst (Calico_run h self)))"
proof -
  from assms(3)
  have pre: "\<forall>j<length pre. \<not> (blocker (snd (pre ! j)) \<and> failed h (0 + j) (pre ! j))"
    by simp
  note thr = executed_through [OF pre]
  have ex: "executed h 0 (items self) = executed h 0 pre @ [(length pre, (k, c))]"
    unfolding assms(1) using thr [of "(k, c) # post"] assms(4,5) by simp
  have ex': "executed h 0 (pre @ [(k, c)]) = executed h 0 pre @ [(length pre, (k, c))]"
    using thr [of "[(k, c)]"] assms(4,5) by simp
  have snd_ex: "map snd (executed h 0 (items self)) = pre @ [(k, c)]"
    using thr [of "[]"] by (simp add: ex)
  have 1: "fst (Calico_run h self) = fst (Calico_run h (self\<lparr>items := pre @ [(k, c)]\<rparr>))"
    by (simp add: Calico_run_executed ex ex')
  have 2: "fst (snd (Calico_run h self))
      = fst (snd (Calico_run h (self\<lparr>items := pre @ [(k, c)]\<rparr>)))"
    by (simp add: Calico_run_executed ex ex')
  have "length (executed h 0 (items self)) = length (pre @ [(k, c)])"
    by (simp only: snd_ex [symmetric] length_map)
  then have 3: "length (fst (snd (Calico_run h self))) = Suc (length pre)"
    by (simp add: Calico_run_executed)
  have "(\<lambda>x. fst (snd x)) ` set (executed h 0 (items self))
      = fst ` set (map snd (executed h 0 (items self)))"
    by (simp add: image_image)
  also have "\<dots> = fst ` set pre \<union> {k}"
    by (simp only: snd_ex) auto
  finally have 4: "fst ` set (fst (Calico_run h self)) = fst ` set pre \<union> {k, ''points''}"
    by (simp add: Calico_run_executed dom_update keys_fold_store)
  have 5: "\<forall>kc \<in> set post. fst kc \<noteq> ''points'' \<longrightarrow> fst kc \<notin> fst ` set (fst (Calico_run h self))"
    using assms(2) unfolding 4 assms(1) by auto
  from 1 2 3 4 5 show ?thesis by blast
qed

theorem C5_blocker_stops_suite_witness:
  "items suite3 = [(''c1'', case_ok ''c1'' (Some 10))] @ (''c2'', case_bad ''c2'' (Some 20) True)
      # [(''c3'', case_ok ''c3'' (Some 30))]
   \<and> distinct (map fst (items suite3))
   \<and> \<not> (blocker (case_ok ''c1'' (Some 10))
        \<and> failed host0 0 (''c1'', case_ok ''c1'' (Some 10)))
   \<and> blocker (case_bad ''c2'' (Some 20) True)
   \<and> failed host0 1 (''c2'', case_bad ''c2'' (Some 20) True)
   \<and> length (fst (snd (Calico_run host0 suite3))) = 2
   \<and> fst ` set (fst (Calico_run host0 suite3)) = {''c1'', ''c2'', ''points''}
   \<and> ''c3'' \<notin> fst ` set (fst (Calico_run host0 suite3))"
proof -
  let ?pre = "[(''c1'', case_ok ''c1'' (Some 10))]"
  have 1: "items suite3 = ?pre @ (''c2'', case_bad ''c2'' (Some 20) True)
      # [(''c3'', case_ok ''c3'' (Some 30))]"
    by (simp add: suite_items)
  have 2: "distinct (map fst (items suite3))"
    by (simp add: suite_items)
  have 3: "\<forall>j<length ?pre. \<not> (blocker (snd (?pre ! j)) \<and> failed host0 j (?pre ! j))"
    by (simp add: case_ok_fields)
  have 4: "blocker (case_bad ''c2'' (Some 20) True)"
    by (simp add: case_ok_fields)
  have 5: "failed host0 (length ?pre) (''c2'', case_bad ''c2'' (Some 20) True)"
    by (simp add: failed_def run_as_examples)
  note inst = C5_blocker_stops_suite [OF 1 2 3 4 5]
  from inst have a: "length (fst (snd (Calico_run host0 suite3))) = Suc (length ?pre)"
    by (rule conjunct1 [OF conjunct2 [OF conjunct2]])
  from inst have b: "fst ` set (fst (Calico_run host0 suite3)) = fst ` set ?pre \<union> {''c2'', ''points''}"
    by (rule conjunct1 [OF conjunct2 [OF conjunct2 [OF conjunct2]]])
  from inst have c: "\<forall>kc \<in> set [(''c3'', case_ok ''c3'' (Some 30))].
      fst kc \<noteq> ''points'' \<longrightarrow> fst kc \<notin> fst ` set (fst (Calico_run host0 suite3))"
    by (rule conjunct2 [OF conjunct2 [OF conjunct2 [OF conjunct2]]])
  from a have a': "length (fst (snd (Calico_run host0 suite3))) = 2" by simp
  from b have b': "fst ` set (fst (Calico_run host0 suite3)) = {''c1'', ''c2'', ''points''}"
    by (simp add: insert_commute)
  from c have c': "''c3'' \<notin> fst ` set (fst (Calico_run host0 suite3))" by simp
  from 3 have n3: "\<not> (blocker (case_ok ''c1'' (Some 10))
        \<and> failed host0 0 (''c1'', case_ok ''c1'' (Some 10)))" by simp
  from 5 have n5: "failed host0 1 (''c2'', case_bad ''c2'' (Some 20) True)" by simp
  from 1 2 n3 4 n5 a' b' c' show ?thesis by blast
qed

text \<open>
  C5 as stated fails: after a failed blocker, the name of the next case, \<^verbatim>\<open>points\<close>, is a
  key of the report returned.
\<close>

theorem C5_later_case_named_points:
  "items suite_blocked = [(''first'', case_block), (''points'', case_named_points)]
   \<and> blocker case_block
   \<and> errors (fst (TestCase_run host0 0 case_block
        (SUPPORTS_JAIL host0 \<and> startswith ''first'' ''case_''))) \<noteq> []
   \<and> fst (Calico_run host0 suite_blocked) =
       [(''first'', Case_Report \<lparr>errors = [''Expected output not received.''],
            case_report.points = Some 0\<rparr>),
        (''points'', Earned_Points 0)]
   \<and> name case_named_points \<in> fst ` set (fst (Calico_run host0 suite_blocked))"
  using run_as_examples(4) [of 0 "''first''"]
  by (simp add: suite_items Calico_run_examples case_ok_fields run_as_def)

section \<open>Scores\<close>

lemma stored_report_scored:
  "TestCase.points (snd kc) = Some p \<Longrightarrow>
   stored_report h n kc =
     \<lparr>errors = errors (fst (run_as h n kc)),
      case_report.points = Some (if errors (fst (run_as h n kc)) = [] then p else 0)\<rparr>"
  by (simp add: stored_report_def awarded_def failed_def)

text \<open>
  C6: for every executed case with points \<open>p\<close>, the report that the loop stores under its
  name has the points \<open>p\<close> when its error list is empty and 0 otherwise (and so has the
  report returned, for every name but \<^verbatim>\<open>points\<close>); the report returned has under
  \<^verbatim>\<open>points\<close> the sum of the awarded points of the executed cases, which are exactly the
  cases a process was spawned for.
\<close>

theorem C6_awarded_points:
  assumes "distinct (map fst (items self))"
    and "(n, kc) \<in> set (executed h 0 (items self))"
    and "TestCase.points (snd kc) = Some p"
  shows "map_of (fst (run_cases h (items self) [] 0 [])) (fst kc) =
       Some (Case_Report
         \<lparr>errors = errors (fst (run_as h n kc)),
          case_report.points = Some (if errors (fst (run_as h n kc)) = [] then p else 0)\<rparr>)
    \<and> (fst kc \<noteq> ''points'' \<longrightarrow>
         map_of (fst (Calico_run h self)) (fst kc) =
           Some (Case_Report
             \<lparr>errors = errors (fst (run_as h n kc)),
              case_report.points = Some (if errors (fst (run_as h n kc)) = [] then p else 0)\<rparr>))
    \<and> map_of (fst (Calico_run h self)) ''points'' =
         Some (Earned_Points
           (sum_list (map (\<lambda>x. awarded h (fst x) (snd x)) (executed h 0 (items self)))))
    \<and> fst (snd (Calico_run h self)) =
         map (\<lambda>x. snd (run_as h (fst x) (snd x))) (executed h 0 (items self))"
proof -
  have d: "distinct (map (\<lambda>x. fst (snd x)) (executed h 0 (items self)))"
    using assms(1) by (rule executed_distinct)
  have "map_of (fold (store h) (executed h 0 (items self)) []) (fst (snd (n, kc)))
      = Some (Case_Report (stored_report h (fst (n, kc)) (snd (n, kc))))"
    using d assms(2) by (rule map_of_fold_store)
  then have l: "map_of (fold (store h) (executed h 0 (items self)) []) (fst kc)
      = Some (Case_Report
         \<lparr>errors = errors (fst (run_as h n kc)),
          case_report.points = Some (if errors (fst (run_as h n kc)) = [] then p else 0)\<rparr>)"
    by (simp add: stored_report_scored [OF assms(3)])
  have 1: "map_of (fst (run_cases h (items self) [] 0 [])) (fst kc) =
       Some (Case_Report
         \<lparr>errors = errors (fst (run_as h n kc)),
          case_report.points = Some (if errors (fst (run_as h n kc)) = [] then p else 0)\<rparr>)"
    using l by (simp add: run_cases_executed)
  have 2: "fst kc \<noteq> ''points'' \<longrightarrow>
         map_of (fst (Calico_run h self)) (fst kc) =
           Some (Case_Report
             \<lparr>errors = errors (fst (run_as h n kc)),
              case_report.points = Some (if errors (fst (run_as h n kc)) = [] then p else 0)\<rparr>)"
    using l by (simp add: Calico_run_executed update_conv')
  have 3: "map_of (fst (Calico_run h self)) ''points'' =
         Some (Earned_Points
           (sum_list (map (\<lambda>x. awarded h (fst x) (snd x)) (executed h 0 (items self)))))"
    by (simp add: Calico_run_executed update_conv')
  have 4: "fst (snd (Calico_run h self)) =
         map (\<lambda>x. snd (run_as h (fst x) (snd x))) (executed h 0 (items self))"
    by (simp add: Calico_run_executed)
  from 1 2 3 4 show ?thesis by blast
qed

theorem C6_awarded_points_witness:
  "distinct (map fst (items suite3))
   \<and> (1, (''c2'', case_bad ''c2'' (Some 20) True)) \<in> set (executed host0 0 (items suite3))
   \<and> TestCase.points (snd (''c2'', case_bad ''c2'' (Some 20) True)) = Some 20
   \<and> map_of (fst (Calico_run host0 suite3)) ''c2'' =
       Some (Case_Report \<lparr>errors = [''Expected output not received.''],
          case_report.points = Some 0\<rparr>)
   \<and> map_of (fst (Calico_run host0 suite3)) ''points'' = Some (Earned_Points 10)
   \<and> length (fst (snd (Calico_run host0 suite3))) = 2"
proof -
  have 1: "distinct (map fst (items suite3))"
    by (simp add: suite_items)
  have 2: "(1, (''c2'', case_bad ''c2'' (Some 20) True)) \<in> set (executed host0 0 (items suite3))"
    by (simp add: executed_examples)
  have 3: "TestCase.points (snd (''c2'', case_bad ''c2'' (Some 20) True)) = Some 20"
    by (simp add: case_ok_fields)
  note inst = C6_awarded_points [OF 1 2 3]
  from inst have
    "fst (''c2'', case_bad ''c2'' (Some 20) True) \<noteq> ''points'' \<longrightarrow>
     map_of (fst (Calico_run host0 suite3)) (fst (''c2'', case_bad ''c2'' (Some 20) True)) =
       Some (Case_Report
         \<lparr>errors = errors (fst (run_as host0 1 (''c2'', case_bad ''c2'' (Some 20) True))),
          case_report.points =
            Some (if errors (fst (run_as host0 1 (''c2'', case_bad ''c2'' (Some 20) True))) = []
                  then 20 else 0)\<rparr>)"
    by (rule conjunct1 [OF conjunct2])
  then have 4: "map_of (fst (Calico_run host0 suite3)) ''c2'' =
       Some (Case_Report \<lparr>errors = [''Expected output not received.''],
          case_report.points = Some 0\<rparr>)"
    by (simp add: run_as_examples)
  from inst have "map_of (fst (Calico_run host0 suite3)) ''points'' =
      Some (Earned_Points
        (sum_list (map (\<lambda>x. awarded host0 (fst x) (snd x)) (executed host0 0 (items suite3)))))"
    by (rule conjunct1 [OF conjunct2 [OF conjunct2]])
  then have 5: "map_of (fst (Calico_run host0 suite3)) ''points'' = Some (Earned_Points 10)"
    by (simp add: executed_examples awarded_def failed_def run_as_examples case_ok_fields)
  from inst have "fst (snd (Calico_run host0 suite3)) =
      map (\<lambda>x. snd (run_as host0 (fst x) (snd x))) (executed host0 0 (items suite3))"
    by (rule conjunct2 [OF conjunct2 [OF conjunct2]])
  then have 6: "length (fst (snd (Calico_run host0 suite3))) = 2"
    by (simp add: executed_examples)
  from 1 2 3 4 5 6 show ?thesis by blast
qed

text \<open>
  C10, as amended: the report returned has a single entry under \<^verbatim>\<open>points\<close>, the number
  of points earned, and so no report of a case under that name. A case named
  \<^verbatim>\<open>points\<close> is executed and scored when no blocker before it fails: then a process is
  spawned for it and its awarded points are part of the points earned.
\<close>

theorem C10_case_named_points:
  assumes "items self = pre @ (''points'', c) # post"
  shows "filter (\<lambda>kv. fst kv = ''points'') (fst (Calico_run h self)) =
       [(''points'', Earned_Points
          (sum_list (map (\<lambda>x. awarded h (fst x) (snd x)) (executed h 0 (items self)))))]
    \<and> ((\<forall>j<length pre. \<not> (blocker (snd (pre ! j)) \<and> failed h j (pre ! j))) \<longrightarrow>
         length pre < length (fst (snd (Calico_run h self)))
         \<and> fst (snd (Calico_run h self)) ! length pre
             = snd (run_as h (length pre) (''points'', c))
         \<and> sum_list (map (\<lambda>x. awarded h (fst x) (snd x)) (executed h 0 (items self))) =
             awarded h (length pre) (''points'', c)
             + sum_list (map (\<lambda>x. awarded h (fst x) (snd x))
                 (remove1 (length pre, (''points'', c)) (executed h 0 (items self)))))"
proof -
  let ?ex = "executed h 0 (items self)"
  let ?e = "sum_list (map (\<lambda>x. awarded h (fst x) (snd x)) ?ex)"
  let ?n = "length pre"
  have "distinct (map fst (fold (store h) ?ex []))"
    by (rule distinct_fold_store) simp
  then have "distinct (map fst (fst (Calico_run h self)))"
    by (simp add: Calico_run_executed distinct_update)
  moreover have "map_of (fst (Calico_run h self)) ''points'' = Some (Earned_Points ?e)"
    by (simp add: Calico_run_executed update_conv')
  ultimately have 1: "filter (\<lambda>kv. fst kv = ''points'') (fst (Calico_run h self)) =
       [(''points'', Earned_Points ?e)]"
    by (rule filter_key_distinct)
  have 2: "?n < length (fst (snd (Calico_run h self)))
         \<and> fst (snd (Calico_run h self)) ! ?n = snd (run_as h ?n (''points'', c))
         \<and> ?e = awarded h ?n (''points'', c)
             + sum_list (map (\<lambda>x. awarded h (fst x) (snd x)) (remove1 (?n, (''points'', c)) ?ex))"
    if reach: "\<forall>j<length pre. \<not> (blocker (snd (pre ! j)) \<and> failed h j (pre ! j))"
  proof -
    from reach
    have "\<forall>j<length pre. \<not> (blocker (snd (pre ! j)) \<and> failed h (0 + j) (pre ! j))"
      by simp
    from executed_through [OF this, of "(''points'', c) # post"]
    have "?ex = executed h 0 pre @ executed h ?n ((''points'', c) # post)"
      by (simp add: assms)
    then have mem: "(?n, (''points'', c)) \<in> set ?ex" by simp
    from executed_nth [OF mem]
    have n: "?n < length ?ex" and nth: "?ex ! ?n = (?n, (''points'', c))" by simp_all
    from n have a: "?n < length (fst (snd (Calico_run h self)))"
      by (simp add: Calico_run_executed)
    from n nth have b: "fst (snd (Calico_run h self)) ! ?n = snd (run_as h ?n (''points'', c))"
      by (simp add: Calico_run_executed)
    have "sum_list (map f xs) = f x + sum_list (map f (remove1 x xs))"
      if "x \<in> set xs" for f :: "nat \<times> string \<times> TestCase \<Rightarrow> int" and x xs
      using that by (induction xs) auto
    from this [OF mem, of "\<lambda>x. awarded h (fst x) (snd x)"]
    have c: "?e = awarded h ?n (''points'', c)
        + sum_list (map (\<lambda>x. awarded h (fst x) (snd x)) (remove1 (?n, (''points'', c)) ?ex))"
      by simp
    from a b c show ?thesis by blast
  qed
  from 1 2 show ?thesis by blast
qed

theorem C10_case_named_points_witness:
  "items suite_points = [(''c1'', case_ok ''c1'' (Some 10))] @ (''points'', case_named_points) # []
   \<and> \<not> (blocker (case_ok ''c1'' (Some 10))
        \<and> failed host0 0 (''c1'', case_ok ''c1'' (Some 10)))
   \<and> fst (Calico_run host0 suite_points) =
       [(''c1'', Case_Report \<lparr>errors = [], case_report.points = Some 10\<rparr>),
        (''points'', Earned_Points 15)]
   \<and> filter (\<lambda>kv. fst kv = ''points'') (fst (Calico_run host0 suite_points)) =
       [(''points'', Earned_Points 15)]
   \<and> fst (snd (Calico_run host0 suite_points)) ! 1 =
       (''echo hi; exit 3'', [Setecho False, Expect (Text ''hi'') None, Close True])
   \<and> awarded host0 1 (''points'', case_named_points) = 5"
proof -
  let ?pre = "[(''c1'', case_ok ''c1'' (Some 10))]"
  have 1: "items suite_points = ?pre @ (''points'', case_named_points) # []"
    by (simp add: suite_items)
  have r: "\<forall>j<length ?pre. \<not> (blocker (snd (?pre ! j)) \<and> failed host0 j (?pre ! j))"
    by (simp add: case_ok_fields)
  then have 2: "\<not> (blocker (case_ok ''c1'' (Some 10))
        \<and> failed host0 0 (''c1'', case_ok ''c1'' (Some 10)))"
    by simp
  note inst = C10_case_named_points [OF 1, of host0]
  have e: "sum_list (map (\<lambda>x. awarded host0 (fst x) (snd x))
      (executed host0 0 (items suite_points))) = 15"
    by (simp add: executed_examples awarded_def failed_def run_as_examples case_ok_fields)
  from inst have "filter (\<lambda>kv. fst kv = ''points'') (fst (Calico_run host0 suite_points)) =
       [(''points'', Earned_Points
          (sum_list (map (\<lambda>x. awarded host0 (fst x) (snd x))
             (executed host0 0 (items suite_points)))))]"
    by (rule conjunct1)
  then have 3: "filter (\<lambda>kv. fst kv = ''points'') (fst (Calico_run host0 suite_points)) =
       [(''points'', Earned_Points 15)]"
    by (simp only: e)
  from inst r have "fst (snd (Calico_run host0 suite_points)) ! length ?pre =
      snd (run_as host0 (length ?pre) (''points'', case_named_points))"
    by blast
  then have 4: "fst (snd (Calico_run host0 suite_points)) ! 1 =
       (''echo hi; exit 3'', [Setecho False, Expect (Text ''hi'') None, Close True])"
    by (simp add: run_as_examples)
  have 5: "awarded host0 1 (''points'', case_named_points) = 5"
    by (simp add: awarded_def failed_def run_as_examples case_ok_fields)
  have 6: "fst (Calico_run host0 suite_points) =
       [(''c1'', Case_Report \<lparr>errors = [], case_report.points = Some 10\<rparr>),
        (''points'', Earned_Points 15)]"
    by (rule Calico_run_examples)
  from 1 2 3 4 5 6 show ?thesis by blast
qed

text \<open>
  C10 as stated fails: in a suite whose first case is a blocker that fails, the case
  named \<^verbatim>\<open>points\<close> is not executed and not scored. One process is spawned, for the
  first case, and the points earned are 0, though the case named \<^verbatim>\<open>points\<close> has
  5 points and would pass.
\<close>

theorem C10_points_case_not_reached:
  "items suite_blocked = [(''first'', case_block), (''points'', case_named_points)]
   \<and> executed host0 0 (items suite_blocked) = [(0, ''first'', case_block)]
   \<and> fst (snd (Calico_run host0 suite_blocked)) =
       [(''echo hi; exit 3'', [Setecho False, Expect (Text ''bye'') None, Close True])]
   \<and> fst (Calico_run host0 suite_blocked) =
       [(''first'', Case_Report \<lparr>errors = [''Expected output not received.''],
            case_report.points = Some 0\<rparr>),
        (''points'', Earned_Points 0)]
   \<and> TestCase.points case_named_points = Some 5
   \<and> errors (fst (run_as host0 1 (''points'', case_named_points))) = []"
proof -
  have "fst (snd (Calico_run host0 suite_blocked)) =
       [(''echo hi; exit 3'', [Setecho False, Expect (Text ''bye'') None, Close True])]"
    by (simp add: Calico_run_executed executed_examples run_as_examples)
  then show ?thesis
    by (simp add: suite_items Calico_run_examples case_ok_fields failed_def
          run_as_examples)
qed

section \<open>The total of a suite\<close>

lemma keys_fold_add_case:
  "fst ` set (items (fold add_case cs s)) = fst ` set (items s) \<union> name ` set cs"
  by (induction cs arbitrary: s) (auto simp: add_case_def dom_update)

lemma length_update_present:
  "k \<in> fst ` set al \<Longrightarrow> length (AList.update k v al) = length al"
  by (induction al) auto

text \<open>
  C7: after adding the cases \<open>cs\<close> to a new suite, in this order, the total is the sum of
  their points, 0 for a case without points; \<^verbatim>\<open>Calico.run\<close> leaves the suite, and so the
  total, as it was.
\<close>

theorem C7_total_points:
  "Calico.points (fold add_case cs Calico_init) = sum_list (map score cs)
   \<and> snd (snd (Calico_run h (fold add_case cs Calico_init))) = fold add_case cs Calico_init"
  by (simp add: points_fold_add_case Calico_init_def Calico_run_def Let_def split: prod.splits)

theorem C7_total_points_witness:
  "Calico.points suite3 = 60
   \<and> Calico.points (snd (snd (Calico_run host0 suite3))) = 60
   \<and> fst (Calico_run host0 suite3) =
     [(''c1'', Case_Report \<lparr>errors = [], case_report.points = Some 10\<rparr>),
      (''c2'', Case_Report \<lparr>errors = [''Expected output not received.''],
          case_report.points = Some 0\<rparr>),
      (''points'', Earned_Points 10)]"
  using C7_total_points
    [of "[case_ok ''c1'' (Some 10), case_bad ''c2'' (Some 20) True, case_ok ''c3'' (Some 30)]"
      host0, folded suite3_def]
  by (simp add: Calico_run_examples score_def case_ok_fields)

text \<open>
  C9: when a case is added whose name is that of a case added before, the suite has a
  single item under that name, the new case, and no more items than before; the total
  counts the points of both the old and the new case.
\<close>

theorem C9_duplicate_name:
  assumes "old \<in> set cs" and "name new = name old"
  shows "filter (\<lambda>kv. fst kv = name old) (items (add_case new (fold add_case cs Calico_init)))
           = [(name old, new)]
         \<and> length (items (add_case new (fold add_case cs Calico_init)))
           = length (items (fold add_case cs Calico_init))
         \<and> Calico.points (add_case new (fold add_case cs Calico_init))
           = sum_list (map score (remove1 old cs)) + score old + score new"
proof -
  let ?s = "fold add_case cs Calico_init"
  have d: "distinct (map fst (items ?s))"
    by (rule distinct_items_fold_add_case) (simp add: Calico_init_def)
  have "distinct (map fst (items (add_case new ?s)))"
    using d by (simp add: add_case_def distinct_update)
  moreover have "map_of (items (add_case new ?s)) (name old) = Some new"
    using assms(2) by (simp add: add_case_def update_conv')
  ultimately have 1: "filter (\<lambda>kv. fst kv = name old) (items (add_case new ?s)) = [(name old, new)]"
    by (rule filter_key_distinct)
  have "name new \<in> fst ` set (items ?s)"
    using assms by (simp add: keys_fold_add_case)
  then have 2: "length (items (add_case new ?s)) = length (items ?s)"
    by (simp add: add_case_def length_update_present)
  have "sum_list (map score cs) = sum_list (map score (remove1 old cs)) + score old"
    using assms(1) by (induction cs) auto
  then have 3: "Calico.points (add_case new ?s)
      = sum_list (map score (remove1 old cs)) + score old + score new"
    by (simp add: add_case_def points_fold_add_case Calico_init_def score_def)
  from 1 2 3 show ?thesis by simp
qed

theorem C9_duplicate_name_witness:
  "case_ok ''c1'' (Some 10) \<in> set [case_ok ''c1'' (Some 10), case_ok ''c2'' (Some 20)]
   \<and> name (case_bad ''c1'' (Some 7) False) = name (case_ok ''c1'' (Some 10))
   \<and> items (add_case (case_bad ''c1'' (Some 7) False) suite_twice)
       = [(''c1'', case_bad ''c1'' (Some 7) False), (''c2'', case_ok ''c2'' (Some 20))]
   \<and> filter (\<lambda>kv. fst kv = ''c1'') (items (add_case (case_bad ''c1'' (Some 7) False) suite_twice))
       = [(''c1'', case_bad ''c1'' (Some 7) False)]
   \<and> Calico.points (add_case (case_bad ''c1'' (Some 7) False) suite_twice) = 37"
proof -
  have 1: "case_ok ''c1'' (Some 10) \<in> set [case_ok ''c1'' (Some 10), case_ok ''c2'' (Some 20)]"
    by simp
  have 2: "name (case_bad ''c1'' (Some 7) False) = name (case_ok ''c1'' (Some 10))"
    by (simp add: case_ok_fields)
  have 3: "items (add_case (case_bad ''c1'' (Some 7) False) suite_twice)
       = [(''c1'', case_bad ''c1'' (Some 7) False), (''c2'', case_ok ''c2'' (Some 20))]"
    by (simp add: suite_twice_def add_case_def Calico_init_def case_ok_fields)
  note inst = C9_duplicate_name [OF 1 2, folded suite_twice_def]
  from inst have 4: "filter (\<lambda>kv. fst kv = ''c1'')
      (items (add_case (case_bad ''c1'' (Some 7) False) suite_twice))
       = [(''c1'', case_bad ''c1'' (Some 7) False)]"
    by (simp add: case_ok_fields)
  from inst have 5: "Calico.points (add_case (case_bad ''c1'' (Some 7) False) suite_twice) = 37"
    by (simp add: case_ok_fields score_def)
  from 1 2 3 4 5 show ?thesis by blast
qed

end
